theory Spec2Isabelle
  imports Main
begin

section \<open>The circular-dependency example: two translation units calling each other\<close>

text \<open>
  The repository holds two C files, \<^verbatim>\<open>package-a.c\<close> and \<^verbatim>\<open>package-b.c\<close>.
  Each defines one \<^verbatim>\<open>void\<close> function and a \<^verbatim>\<open>main\<close>:
  \<^verbatim>\<open>
  extern void package_b_function(void);
  void package_a_function(void) {
      printf("Package A function called\n");
      package_b_function();
  }
  int main() {
      package_a_function();
      return 0;
  }
  \<close>
  and the same with \<open>a\<close> and \<open>b\<close> exchanged. The code has three kinds of statement:
  a \<^verbatim>\<open>printf\<close> of a constant format string, a call of a function by name, and
  \<^verbatim>\<open>return 0\<close>. A function body is the list of its statements in source order.
\<close>

subsection \<open>Program text\<close>

type_synonym symbol = string

datatype stmt =
  Printf string
| Call symbol
| Return int

definition package_a_function :: "stmt list" where
  "package_a_function =
     [Printf ''Package A function called\<newline>'',
      Call ''package_b_function'']"

definition package_a_main :: "stmt list" where
  "package_a_main = [Call ''package_a_function'', Return 0]"

definition package_b_function :: "stmt list" where
  "package_b_function =
     [Printf ''Package B function called\<newline>'',
      Call ''package_a_function'']"

definition package_b_main :: "stmt list" where
  "package_b_main = [Call ''package_b_function'', Return 0]"

text \<open>
  A translation unit maps the symbols it defines to their bodies. A symbol that is only
  declared \<^verbatim>\<open>extern\<close> is not in the domain of its unit.
\<close>

type_synonym translation_unit = "symbol \<rightharpoonup> stmt list"

definition package_a_c :: translation_unit where
  "package_a_c =
     [''package_a_function'' \<mapsto> package_a_function, ''main'' \<mapsto> package_a_main]"

definition package_b_c :: translation_unit where
  "package_b_c =
     [''package_b_function'' \<mapsto> package_b_function, ''main'' \<mapsto> package_b_main]"

text \<open>
  Both files define \<^verbatim>\<open>main\<close>, so a program is linked from the file that provides the
  entry point and from the other file without its \<^verbatim>\<open>main\<close>.
\<close>

type_synonym program = "symbol \<rightharpoonup> stmt list"

definition link :: "translation_unit \<Rightarrow> translation_unit \<Rightarrow> program" where
  "link entry_unit other_unit = (other_unit(''main'' := None)) ++ entry_unit"

definition program_a :: program where
  "program_a = link package_a_c package_b_c"

definition program_b :: program where
  "program_b = link package_b_c package_a_c"

subsection \<open>Machine state\<close>

text \<open>
  A configuration holds the call stack (one frame per active call: the function and the
  index of its next statement, innermost call first), the bytes written to standard
  output so far, and the rest of the world a C program could touch: the unread standard
  input, the memory of global, static and heap objects, and the exit status, set when
  \<^verbatim>\<open>main\<close> returns. The call stack is unbounded.
\<close>

type_synonym frame = "symbol \<times> nat"

record config =
  stack :: "frame list"
  stdout :: string
  stdin :: string
  memory :: "nat \<rightharpoonup> int"
  exit_status :: "int option"

datatype error = Unresolved_symbol symbol

text \<open>
  One step executes the next statement of the innermost frame.
  \<^item> \<^verbatim>\<open>printf\<close> of a format string without conversion specifications (both strings
    of the source are such) appends the string to standard output; its result is
    discarded by the source.
  \<^item> A call pushes a frame for the callee and leaves the caller at its next statement.
    A callee the program does not define is the unresolved symbol of the linker.
  \<^item> \<^verbatim>\<open>return v\<close> pops the frame; from the outermost frame it sets the exit status.
  \<^item> Past the last statement of a body the function returns, as a \<^verbatim>\<open>void\<close>
    function does at its closing brace.
  A configuration with an empty stack has finished; it steps to itself.
\<close>

definition step :: "program \<Rightarrow> config \<Rightarrow> error + config" where
  "step P c =
     (case stack c of
        [] \<Rightarrow> Inr c
      | (f, pc) # callers \<Rightarrow>
          (case P f of
             None \<Rightarrow> Inl (Unresolved_symbol f)
           | Some body \<Rightarrow>
               if pc < length body then
                 (case body ! pc of
                    Printf s \<Rightarrow>
                      Inr (c\<lparr>stack := (f, Suc pc) # callers, stdout := stdout c @ s\<rparr>)
                  | Call g \<Rightarrow>
                      (case P g of
                         None \<Rightarrow> Inl (Unresolved_symbol g)
                       | Some _ \<Rightarrow> Inr (c\<lparr>stack := (g, 0) # (f, Suc pc) # callers\<rparr>))
                  | Return v \<Rightarrow>
                      Inr (c\<lparr>stack := callers,
                             exit_status := (if callers = [] then Some v else exit_status c)\<rparr>))
               else Inr (c\<lparr>stack := callers\<rparr>)))"

text \<open>\<open>steps P n c\<close> runs \<open>n\<close> steps from \<open>c\<close> and stops at the first error.\<close>

fun steps :: "program \<Rightarrow> nat \<Rightarrow> config \<Rightarrow> error + config" where
  "steps P 0 c = Inr c"
| "steps P (Suc n) c = (case step P c of Inl e \<Rightarrow> Inl e | Inr c' \<Rightarrow> steps P n c')"

text \<open>
  \<open>run P c\<close> executes until the stack is empty or an error occurs. An execution that
  does neither has no result: \<open>run P c = None\<close>.
\<close>

partial_function (option) run :: "program \<Rightarrow> config \<Rightarrow> (error + config) option" where
  "run P c =
     (if stack c = [] then Some (Inr c)
      else (case step P c of Inl e \<Rightarrow> Some (Inl e) | Inr c' \<Rightarrow> run P c'))"

text \<open>
  The process starts with a call of the given function on an empty stack, nothing
  written yet, and some input and memory. A program starts at \<^verbatim>\<open>main\<close>.
\<close>

definition entry :: "symbol \<Rightarrow> string \<Rightarrow> (nat \<rightharpoonup> int) \<Rightarrow> config" where
  "entry f inp mem =
     \<lparr>stack = [(f, 0)], stdout = [], stdin = inp, memory = mem, exit_status = None\<rparr>"

definition initial :: "string \<Rightarrow> (nat \<rightharpoonup> int) \<Rightarrow> config" where
  "initial inp mem = entry ''main'' inp mem"

subsection \<open>Lines of standard output\<close>

text \<open>
  Standard output is a stream of bytes. Its lines are the maximal runs of bytes ended by
  a newline; bytes after the last newline are a line still being written and do not count.
\<close>

fun lines_from :: "string \<Rightarrow> string \<Rightarrow> string list" where
  "lines_from cur [] = []"
| "lines_from cur (ch # rest) =
     (if ch = CHR 0x0A then cur # lines_from [] rest else lines_from (cur @ [ch]) rest)"

definition lines_of :: "string \<Rightarrow> string list" where
  "lines_of out = lines_from [] out"

subsection \<open>The two packages, and what an unbounded run of calls writes\<close>

datatype package = A | B

fun other :: "package \<Rightarrow> package" where
  "other A = B"
| "other B = A"

fun function_of :: "package \<Rightarrow> symbol" where
  "function_of A = ''package_a_function''"
| "function_of B = ''package_b_function''"

fun line_of :: "package \<Rightarrow> string" where
  "line_of A = ''Package A function called''"
| "line_of B = ''Package B function called''"

text \<open>The first \<open>k\<close> lines, alternating, starting with the line of \<open>p\<close>.\<close>

fun alternating :: "package \<Rightarrow> nat \<Rightarrow> string list" where
  "alternating p 0 = []"
| "alternating p (Suc k) = line_of p # alternating (other p) k"

text \<open>The same as bytes: each line followed by its newline.\<close>

fun chant :: "package \<Rightarrow> nat \<Rightarrow> string" where
  "chant p 0 = []"
| "chant p (Suc k) = line_of p @ CHR 0x0A # chant (other p) k"

text \<open>The package whose function is called after \<open>k\<close> nested calls starting at \<open>p\<close>.\<close>

fun callee :: "package \<Rightarrow> nat \<Rightarrow> package" where
  "callee p 0 = p"
| "callee p (Suc k) = callee (other p) k"

text \<open>
  The frames of the \<open>k\<close> calls that are waiting for their callee, innermost first: each
  waits at statement index 2, after its call.
\<close>

fun pending :: "package \<Rightarrow> nat \<Rightarrow> frame list" where
  "pending p 0 = []"
| "pending p (Suc k) = pending (other p) k @ [(function_of p, 2)]"

text \<open>
  The frames that a call of the function of \<open>p\<close> has put on the stack after \<open>n\<close> steps:
  the running frame, at statement \<open>n mod 2\<close>, above the waiting ones.
\<close>

definition active :: "package \<Rightarrow> nat \<Rightarrow> frame list" where
  "active p n = (function_of (callee p (n div 2)), n mod 2) # pending p (n div 2)"

text \<open>A program in which both functions are the ones of the source.\<close>

definition both_linked :: "program \<Rightarrow> bool" where
  "both_linked P \<longleftrightarrow>
     P ''package_a_function'' = Some package_a_function \<and>
     P ''package_b_function'' = Some package_b_function"

text \<open>The program whose \<^verbatim>\<open>main\<close> is the one of the file of \<open>p\<close>.\<close>

fun program_of :: "package \<Rightarrow> program" where
  "program_of A = program_a"
| "program_of B = program_b"

section \<open>Basic facts\<close>

lemma program_a_lookup:
  "program_a ''package_a_function'' = Some package_a_function"
  "program_a ''package_b_function'' = Some package_b_function"
  "program_a ''main'' = Some package_a_main"
  by (simp_all add: program_a_def link_def package_a_c_def package_b_c_def map_add_def)

lemma program_b_lookup:
  "program_b ''package_a_function'' = Some package_a_function"
  "program_b ''package_b_function'' = Some package_b_function"
  "program_b ''main'' = Some package_b_main"
  by (simp_all add: program_b_def link_def package_a_c_def package_b_c_def map_add_def)

lemma both_linked_programs: "both_linked program_a" "both_linked program_b"
  by (simp_all add: both_linked_def program_a_lookup program_b_lookup)

subsection \<open>The two statements of a call\<close>

lemma step_print:
  "both_linked P \<Longrightarrow> stack c = (function_of p, 0) # callers \<Longrightarrow>
   step P c = Inr (c\<lparr>stack := (function_of p, Suc 0) # callers,
                     stdout := stdout c @ line_of p @ [CHR 0x0A]\<rparr>)"
  by (cases p) (simp_all add: step_def both_linked_def package_a_function_def package_b_function_def)

lemma step_call:
  "both_linked P \<Longrightarrow> stack c = (function_of p, Suc 0) # callers \<Longrightarrow>
   step P c = Inr (c\<lparr>stack := (function_of (other p), 0) # (function_of p, 2) # callers\<rparr>)"
  by (cases p) (simp_all add: step_def both_linked_def package_a_function_def package_b_function_def)

lemma steps_add:
  "steps P (m + n) c = (case steps P m c of Inl e \<Rightarrow> Inl e | Inr c' \<Rightarrow> steps P n c')"
  by (induction m arbitrary: c) (simp_all split: sum.splits)

lemma call_two_steps:
  assumes "both_linked P" and "stack c = (function_of p, 0) # callers"
  shows "steps P 2 c =
     Inr (c\<lparr>stack := (function_of (other p), 0) # (function_of p, 2) # callers,
            stdout := stdout c @ line_of p @ [CHR 0x0A]\<rparr>)"
proof -
  have "steps P 2 c = steps P (Suc (Suc 0)) c" by (simp add: numeral_2_eq_2)
  then show ?thesis
    using assms by (simp add: step_print step_call)
qed

lemma calls_unfold:
  "both_linked P \<Longrightarrow> stack c = (function_of p, 0) # callers \<Longrightarrow>
   steps P (2 * k) c =
     Inr (c\<lparr>stack := (function_of (callee p k), 0) # pending p k @ callers,
            stdout := stdout c @ chant p k\<rparr>)"
proof (induction k arbitrary: c p callers)
  case 0
  then show ?case by simp
next
  case (Suc k)
  let ?c2 = "c\<lparr>stack := (function_of (other p), 0) # (function_of p, 2) # callers,
            stdout := stdout c @ line_of p @ [CHR 0x0A]\<rparr>"
  have "steps P (2 * Suc k) c = steps P (2 + 2 * k) c" by simp
  also have "\<dots> = steps P (2 * k) ?c2"
    using call_two_steps [OF Suc.prems] by (simp only: steps_add sum.case)
  also have "\<dots> = Inr (?c2\<lparr>stack := (function_of (callee (other p) k), 0)
                           # pending (other p) k @ (function_of p, 2) # callers,
            stdout := stdout ?c2 @ chant (other p) k\<rparr>)"
    by (rule Suc.IH [OF Suc.prems(1)]) simp
  finally show ?case by simp
qed


lemma chant_Suc_end: "chant p (Suc k) = chant p k @ line_of (callee p k) @ [CHR 0x0A]"
  by (induction k arbitrary: p) simp_all

lemma call_run:
  assumes "both_linked P" and "stack c = (function_of p, 0) # callers"
  shows "steps P n c =
     Inr (c\<lparr>stack := active p n @ callers, stdout := stdout c @ chant p ((n + 1) div 2)\<rparr>)"
proof (cases "even n")
  case True
  then obtain k where n: "n = 2 * k" by (auto elim: evenE)
  then show ?thesis
    using calls_unfold [OF assms, of k] by (simp add: active_def)
next
  case False
  then obtain k where n: "n = 2 * k + 1" by (auto elim: oddE)
  let ?c = "c\<lparr>stack := (function_of (callee p k), 0) # pending p k @ callers,
            stdout := stdout c @ chant p k\<rparr>"
  have "steps P n c = steps P 1 ?c"
    unfolding n using calls_unfold [OF assms, of k] by (simp only: steps_add sum.case)
  also have "\<dots> = Inr (?c\<lparr>stack := (function_of (callee p k), Suc 0) # pending p k @ callers,
        stdout := stdout ?c @ line_of (callee p k) @ [CHR 0x0A]\<rparr>)"
    using step_print [OF assms(1), of ?c "callee p k" "pending p k @ callers"] by simp
  finally have "steps P n c =
      Inr (c\<lparr>stack := (function_of (callee p k), Suc 0) # pending p k @ callers,
             stdout := stdout c @ chant p k @ line_of (callee p k) @ [CHR 0x0A]\<rparr>)"
    by simp
  moreover have "(n + 1) div 2 = Suc k" "n div 2 = k" "n mod 2 = Suc 0"
    using n by simp_all
  ultimately show ?thesis
    by (simp add: active_def chant_Suc_end del: chant.simps)
qed

subsection \<open>Lines of the expected output\<close>

lemma lines_from_line:
  "CHR 0x0A \<notin> set l \<Longrightarrow> lines_from cur (l @ CHR 0x0A # rest) = (cur @ l) # lines_from [] rest"
  by (induction l arbitrary: cur) auto

lemma line_of_no_newline: "CHR 0x0A \<notin> set (line_of p)"
  by (cases p) simp_all

lemma lines_of_chant: "lines_of (chant p k) = alternating p k"
  unfolding lines_of_def
  by (induction k arbitrary: p) (simp_all add: lines_from_line line_of_no_newline)

lemma length_alternating: "length (alternating p k) = k"
  by (induction k arbitrary: p) simp_all

lemma nth_alternating:
  "i < k \<Longrightarrow> alternating p k ! i = line_of (if even i then p else other p)"
proof (induction k arbitrary: p i)
  case 0
  then show ?case by simp
next
  case (Suc k)
  show ?case
  proof (cases i)
    case 0
    then show ?thesis by simp
  next
    case (Suc j)
    with Suc.prems have "j < k" by simp
    from Suc.IH [OF this, of "other p"] Suc show ?thesis
      by (cases p) simp_all
  qed
qed

lemma take2_alternating:
  "2 \<le> k \<Longrightarrow> take 2 (alternating p k) = [line_of p, line_of (other p)]"
proof -
  assume "2 \<le> k"
  then obtain j where "k = Suc (Suc j)" by (metis Suc_le_D numeral_2_eq_2 Suc_le_mono)
  then show ?thesis by (simp add: numeral_2_eq_2)
qed

subsection \<open>Runs with and without a result\<close>

lemma run_Some_finite:
  assumes "run P c = Some r"
  shows "\<exists>n. case steps P n c of Inl e \<Rightarrow> True | Inr c' \<Rightarrow> stack c' = []"
proof -
  let ?Q = "\<lambda>(P, c) (r :: error + config).
     \<exists>n. case steps P n c of Inl e \<Rightarrow> True | Inr c' \<Rightarrow> stack c' = []"
  have "?Q (P, c) r"
  proof (rule run.raw_induct [where Pa = ?Q, OF _ assms])
    fix f P c and r :: "error + config"
    assume IH: "\<And>P c r. f P c = Some r \<Longrightarrow> ?Q (P, c) r"
      and eq: "(if stack c = [] then Some (Inr c)
                else case step P c of Inl e \<Rightarrow> Some (Inl e) | Inr c' \<Rightarrow> f P c') = Some r"
    show "?Q (P, c) r"
    proof (cases "stack c = []")
      case True
      then have "case steps P 0 c of Inl e \<Rightarrow> True | Inr c' \<Rightarrow> stack c' = []" by simp
      then show ?thesis by blast
    next
      case False
      show ?thesis
      proof (cases "step P c")
        case (Inl e)
        then have "case steps P (Suc 0) c of Inl e \<Rightarrow> True | Inr c' \<Rightarrow> stack c' = []"
          by simp
        then show ?thesis by blast
      next
        case (Inr c')
        with eq False have "f P c' = Some r" by simp
        from IH [OF this] obtain n
          where "case steps P n c' of Inl e \<Rightarrow> True | Inr c' \<Rightarrow> stack c' = []" by auto
        with Inr have "case steps P (Suc n) c of Inl e \<Rightarrow> True | Inr c' \<Rightarrow> stack c' = []"
          by simp
        then show ?thesis by blast
      qed
    qed
  qed
  then show ?thesis by simp
qed

lemma run_Some_if_finished:
  "steps P n c = Inr c' \<Longrightarrow> stack c' = [] \<Longrightarrow> \<exists>r. run P c = Some r"
proof (induction n arbitrary: c)
  case 0
  then show ?case by (subst run.simps) simp
next
  case (Suc n)
  show ?case
  proof (cases "stack c = []")
    case True
    then show ?thesis by (subst run.simps) simp
  next
    case False
    from Suc.prems(1) obtain c1 where c1: "step P c = Inr c1" "steps P n c1 = Inr c'"
      by (auto split: sum.splits)
    from Suc.IH [OF c1(2) Suc.prems(2)] obtain r where "run P c1 = Some r" by blast
    with False c1(1) have "run P c = Some r" by (subst run.simps) simp
    then show ?thesis by blast
  qed
qed

lemma run_None_if_live:
  assumes "\<And>n. \<exists>c'. steps P n c = Inr c' \<and> stack c' \<noteq> []"
  shows "run P c = None"
proof (cases "run P c")
  case None
  then show ?thesis .
next
  case (Some r)
  from run_Some_finite [OF this] obtain n
    where "case steps P n c of Inl e \<Rightarrow> True | Inr c' \<Rightarrow> stack c' = []" by blast
  with assms [of n] show ?thesis by auto
qed

subsection \<open>Whole programs\<close>

lemma both_linked_program_of: "both_linked (program_of p)"
  by (cases p) (simp_all add: both_linked_programs)

lemma step_main:
  "stack c = (''main'', 0) # callers \<Longrightarrow>
   step (program_of p) c = Inr (c\<lparr>stack := (function_of p, 0) # (''main'', Suc 0) # callers\<rparr>)"
  by (cases p)
     (simp_all add: step_def program_a_lookup program_b_lookup package_a_main_def package_b_main_def)

lemma step_main_return:
  "stack c = [(''main'', Suc 0)] \<Longrightarrow>
   step (program_of p) c = Inr (c\<lparr>stack := [], exit_status := Some 0\<rparr>)"
  by (cases p)
     (simp_all add: step_def program_a_lookup program_b_lookup package_a_main_def package_b_main_def)

lemma main_run:
  "steps (program_of p) (Suc n) (initial inp mem) =
     Inr ((initial inp mem)\<lparr>stack := active p n @ [(''main'', Suc 0)],
                            stdout := chant p ((n + 1) div 2)\<rparr>)"
proof -
  let ?c = "(initial inp mem)\<lparr>stack := [(function_of p, 0), (''main'', Suc 0)]\<rparr>"
  have "step (program_of p) (initial inp mem) = Inr ?c"
    by (rule step_main) (simp add: initial_def entry_def)
  then have "steps (program_of p) (Suc n) (initial inp mem) = steps (program_of p) n ?c"
    by simp
  also have "\<dots> = Inr (?c\<lparr>stack := active p n @ [(''main'', Suc 0)],
                          stdout := stdout ?c @ chant p ((n + 1) div 2)\<rparr>)"
    by (rule call_run [OF both_linked_program_of]) simp
  finally show ?thesis by (simp add: initial_def entry_def)
qed

lemma main_run_all:
  "\<exists>fr. fr \<noteq> [] \<and> steps (program_of p) n (initial inp mem) =
     Inr ((initial inp mem)\<lparr>stack := fr, stdout := chant p (n div 2)\<rparr>)"
proof (cases n)
  case 0
  have "initial inp mem = (initial inp mem)\<lparr>stack := [(''main'', 0)], stdout := chant p 0\<rparr>"
    by (simp add: initial_def entry_def)
  with 0 show ?thesis by (intro exI [of _ "[(''main'', 0)]"]) simp
next
  case (Suc m)
  show ?thesis
    unfolding Suc main_run
    by (intro exI [of _ "active p m @ [(''main'', Suc 0)]"]) (simp add: active_def)
qed

lemma chant_prefix: "k \<le> k' \<Longrightarrow> \<exists>rest. chant p k' = chant p k @ rest"
proof (induction k' )
  case 0
  then show ?case by simp
next
  case (Suc k')
  show ?case
  proof (cases "k = Suc k'")
    case True
    then show ?thesis by simp
  next
    case False
    with Suc.prems have "k \<le> k'" by simp
    from Suc.IH [OF this] obtain rest where "chant p k' = chant p k @ rest" by blast
    then have "chant p (Suc k') = chant p k @ (rest @ line_of (callee p k') @ [CHR 0x0A])"
      by (simp add: chant_Suc_end del: chant.simps)
    then show ?thesis by blast
  qed
qed

lemma step_defined:
  assumes "P \<in> {program_a, program_b}"
    and "fst ` set (stack c) \<subseteq> {''main'', ''package_a_function'', ''package_b_function''}"
  shows "\<exists>c'. step P c = Inr c' \<and>
     fst ` set (stack c') \<subseteq> {''main'', ''package_a_function'', ''package_b_function''}"
proof (cases "stack c")
  case Nil
  with assms(2) show ?thesis by (simp add: step_def)
next
  case (Cons fr callers)
  obtain f pc where fr: "fr = (f, pc)" by (cases fr)
  from assms(2) Cons fr
  have f: "f \<in> {''main'', ''package_a_function'', ''package_b_function''}"
    and rest: "fst ` set callers \<subseteq> {''main'', ''package_a_function'', ''package_b_function''}"
    by auto
  from assms(1) f obtain body where body: "P f = Some body"
    "body \<in> {package_a_main, package_b_main, package_a_function, package_b_function}"
    by (auto simp: program_a_lookup program_b_lookup)
  show ?thesis
  proof (cases "pc < length body")
    case False
    with Cons fr body rest show ?thesis by (simp add: step_def)
  next
    case True
    with body(2) have "pc = 0 \<or> pc = 1"
      by (auto simp: package_a_main_def package_b_main_def package_a_function_def
          package_b_function_def)
    with Cons fr body rest f assms(1) show ?thesis
      by (auto simp: step_def program_a_lookup program_b_lookup package_a_main_def
          package_b_main_def package_a_function_def package_b_function_def)
  qed
qed

lemma steps_defined:
  assumes "P \<in> {program_a, program_b}"
    and "fst ` set (stack c) \<subseteq> {''main'', ''package_a_function'', ''package_b_function''}"
  shows "\<exists>c'. steps P n c = Inr c'"
  using assms(2)
proof (induction n arbitrary: c)
  case 0
  then show ?case by simp
next
  case (Suc n)
  from step_defined [OF assms(1) Suc.prems] obtain c' where "step P c = Inr c'"
    and "fst ` set (stack c') \<subseteq> {''main'', ''package_a_function'', ''package_b_function''}"
    by blast
  with Suc.IH [of c'] show ?case by simp
qed

section \<open>Properties of the two programs\<close>

lemma programs_cases:
  "P \<in> {program_a, program_b} \<Longrightarrow> \<exists>p. P = program_of p"
  by (auto intro: exI [of _ A] exI [of _ B])

lemma main_live:
  "\<exists>c. steps (program_of p) n (initial inp mem) = Inr c \<and> stack c \<noteq> [] \<and>
       exit_status c = None \<and> stdout c = chant p (n div 2)"
proof -
  from main_run_all [of p n inp mem] obtain fr where "fr \<noteq> []"
    and "steps (program_of p) n (initial inp mem) =
      Inr ((initial inp mem)\<lparr>stack := fr, stdout := chant p (n div 2)\<rparr>)" by blast
  then show ?thesis by (simp add: initial_def entry_def)
qed

lemma main_run_None: "run (program_of p) (initial inp mem) = None"
proof (rule run_None_if_live)
  fix n
  from main_live [of p n inp mem]
  show "\<exists>c'. steps (program_of p) n (initial inp mem) = Inr c' \<and> stack c' \<noteq> []"
    by blast
qed

lemma call_lines:
  assumes "both_linked P"
  shows "\<exists>c. steps P n (entry (function_of p) inp mem) = Inr c \<and>
     lines_of (stdout c) = alternating p ((n + 1) div 2)"
proof -
  let ?c = "entry (function_of p) inp mem"
  have "steps P n ?c =
      Inr (?c\<lparr>stack := active p n @ [], stdout := stdout ?c @ chant p ((n + 1) div 2)\<rparr>)"
    by (rule call_run [OF assms]) (simp add: entry_def)
  then show ?thesis by (simp add: entry_def lines_of_chant)
qed

lemma other_other: "other (other p) = p"
  by (cases p) simp_all

lemma callee_parity: "callee p k = (if even k then p else other p)"
  by (induction k arbitrary: p) (simp_all add: other_other)

lemma length_pending: "length (pending p k) = k"
  by (induction k arbitrary: p) simp_all

subsection \<open>Termination\<close>

text \<open>
  Claim C1, as amended. For every run of a linked program, whichever file's \<^verbatim>\<open>main\<close>
  is the entry point, after printing its two messages execution does not return from
  \<^verbatim>\<open>main\<close>: \<^verbatim>\<open>package_a_function\<close> and \<^verbatim>\<open>package_b_function\<close> go on calling each
  other in turn. With no bound on the call stack (the source sets none), the stack is
  non-empty and no exit status is set after every number of steps, and the run has no
  result. In detail, for the program of package \<open>p\<close>:
  \<^item> the lines written after \<open>n\<close> steps are the first \<open>n div 2\<close> of the alternating
    sequence that starts with the message of \<open>p\<close>, so that from four steps on the first
    two lines are the message of \<open>p\<close> and then the message of the other package;
  \<^item> after \<open>2k + 1\<close> steps the \<open>k\<close>-th nested call has just been made, of the function
    of \<open>p\<close> for even \<open>k\<close> and of the other function for odd \<open>k\<close>, above \<open>k\<close> frames
    that wait after their call and the frame of \<^verbatim>\<open>main\<close>.
\<close>

theorem main_never_returns:
  "run (program_of p) (initial inp mem) = None \<and>
   (\<exists>c. steps (program_of p) n (initial inp mem) = Inr c \<and>
        stack c \<noteq> [] \<and> exit_status c = None \<and>
        lines_of (stdout c) = alternating p (n div 2) \<and>
        (4 \<le> n \<longrightarrow> take 2 (lines_of (stdout c)) = [line_of p, line_of (other p)])) \<and>
   (\<exists>c. steps (program_of p) (2 * k + 1) (initial inp mem) = Inr c \<and>
        stack c = (function_of (if even k then p else other p), 0)
                    # pending p k @ [(''main'', 1)] \<and>
        length (stack c) = k + 2)"
proof (intro conjI)
  show "run (program_of p) (initial inp mem) = None"
    by (rule main_run_None)
next
  from main_live [of p n inp mem] obtain c
    where c: "steps (program_of p) n (initial inp mem) = Inr c" "stack c \<noteq> []"
      "exit_status c = None" "stdout c = chant p (n div 2)"
    by blast
  have l: "lines_of (stdout c) = alternating p (n div 2)"
    by (simp only: c(4) lines_of_chant)
  have "take 2 (lines_of (stdout c)) = [line_of p, line_of (other p)]" if "4 \<le> n"
  proof -
    from that have "2 \<le> n div 2" by simp
    then show ?thesis by (simp only: l take2_alternating)
  qed
  with c l show "\<exists>c. steps (program_of p) n (initial inp mem) = Inr c \<and>
        stack c \<noteq> [] \<and> exit_status c = None \<and>
        lines_of (stdout c) = alternating p (n div 2) \<and>
        (4 \<le> n \<longrightarrow> take 2 (lines_of (stdout c)) = [line_of p, line_of (other p)])"
    by blast
next
  let ?c = "(initial inp mem)\<lparr>stack := active p (2 * k) @ [(''main'', Suc 0)],
                            stdout := chant p ((2 * k + 1) div 2)\<rparr>"
  have "steps (program_of p) (2 * k + 1) (initial inp mem) = Inr ?c"
    using main_run [of p "2 * k" inp mem] by simp
  moreover have "stack ?c = (function_of (if even k then p else other p), 0)
                    # pending p k @ [(''main'', 1)]"
    by (simp add: active_def callee_parity)
  moreover have "length (stack ?c) = k + 2"
    by (simp add: active_def length_pending)
  ultimately show "\<exists>c. steps (program_of p) (2 * k + 1) (initial inp mem) = Inr c \<and>
        stack c = (function_of (if even k then p else other p), 0)
                    # pending p k @ [(''main'', 1)] \<and>
        length (stack c) = k + 2"
    by blast
qed

theorem main_never_returns_witness:
  "run program_b (initial ''x'' Map.empty) = None \<and>
   (\<exists>c. steps program_b 4 (initial ''x'' Map.empty) = Inr c \<and>
        stack c \<noteq> [] \<and> exit_status c = None \<and>
        lines_of (stdout c) = [''Package B function called'', ''Package A function called''] \<and>
        take 2 (lines_of (stdout c)) =
          [''Package B function called'', ''Package A function called'']) \<and>
   (\<exists>c. steps program_b 7 (initial ''x'' Map.empty) = Inr c \<and>
        stack c = [(''package_a_function'', 0), (''package_b_function'', 2),
                   (''package_a_function'', 2), (''package_b_function'', 2), (''main'', 1)] \<and>
        length (stack c) = 5)"
proof -
  have a: "alternating B 2 = [''Package B function called'', ''Package A function called'']"
    by (simp add: numeral_2_eq_2)
  have b: "pending B 3 =
      [(''package_b_function'', 2), (''package_a_function'', 2), (''package_b_function'', 2)]"
    by (simp add: numeral_3_eq_3)
  from main_never_returns [of B "''x''" Map.empty 4 3] show ?thesis
    by (simp add: a b)
qed

text \<open>
  The claim as first stated (execution returns from \<^verbatim>\<open>main\<close> after the two
  messages) fails for the program linked with the \<^verbatim>\<open>main\<close> of \<^verbatim>\<open>package-a.c\<close>,
  started with no input and empty memory: \<^verbatim>\<open>package_a_function\<close> calls
  \<^verbatim>\<open>package_b_function\<close>, which calls \<^verbatim>\<open>package_a_function\<close> again, and neither
  has a statement that could end the chain.
\<close>

theorem main_returns_counterexample:
  "run program_a (initial [] Map.empty) = None \<and>
   \<not> (\<exists>n c. steps program_a n (initial [] Map.empty) = Inr c \<and> stack c = [])"
proof
  show "run program_a (initial [] Map.empty) = None"
    using main_run_None [of A "[]" Map.empty] by simp
next
  show "\<not> (\<exists>n c. steps program_a n (initial [] Map.empty) = Inr c \<and> stack c = [])"
  proof
    assume "\<exists>n c. steps program_a n (initial [] Map.empty) = Inr c \<and> stack c = []"
    then obtain n c where "steps program_a n (initial [] Map.empty) = Inr c" "stack c = []"
      by blast
    with main_live [of A n "[]" Map.empty] show False by simp
  qed
qed

subsection \<open>Output of a run\<close>

text \<open>
  Claim C2. In the run that starts at the \<^verbatim>\<open>main\<close> of \<^verbatim>\<open>package-a.c\<close> the first
  line on standard output is "Package A function called" and the second is
  "Package B function called"; in the run that starts at the \<^verbatim>\<open>main\<close> of
  \<^verbatim>\<open>package-b.c\<close> the two lines come in the reverse order. Both lines are out after
  four steps (two calls and two prints) and stay the first two from then on.
\<close>

theorem first_two_lines:
  assumes "4 \<le> n"
  shows "(\<exists>c. steps program_a n (initial inp mem) = Inr c \<and>
            take 2 (lines_of (stdout c)) =
              [''Package A function called'', ''Package B function called'']) \<and>
         (\<exists>c. steps program_b n (initial inp mem) = Inr c \<and>
            take 2 (lines_of (stdout c)) =
              [''Package B function called'', ''Package A function called''])"
proof -
  have *: "\<exists>c. steps (program_of p) n (initial inp mem) = Inr c \<and>
      take 2 (lines_of (stdout c)) = [line_of p, line_of (other p)]" for p
  proof -
    from main_live [of p n inp mem] obtain c
      where c: "steps (program_of p) n (initial inp mem) = Inr c"
        "stdout c = chant p (n div 2)" by blast
    from assms have "2 \<le> n div 2" by simp
    then have "take 2 (lines_of (stdout c)) = [line_of p, line_of (other p)]"
      by (simp only: c(2) lines_of_chant take2_alternating)
    with c(1) show ?thesis by blast
  qed
  from * [of A] * [of B] show ?thesis by simp
qed

theorem first_two_lines_witness:
  "(\<exists>c. steps program_a 4 (initial [] Map.empty) = Inr c \<and>
            take 2 (lines_of (stdout c)) =
              [''Package A function called'', ''Package B function called'']) \<and>
         (\<exists>c. steps program_b 4 (initial [] Map.empty) = Inr c \<and>
            take 2 (lines_of (stdout c)) =
              [''Package B function called'', ''Package A function called''])"
  using first_two_lines [of 4 "[]" Map.empty] by simp

text \<open>
  Claim C8. In the run that starts from \<^verbatim>\<open>package_a_function\<close>, after any number
  \<open>n\<close> of steps \<open>(n + 1) div 2\<close> lines have been written, and for every \<open>k\<close> the
  \<open>(2k+1)\<close>-th line, once written, is "Package A function called" and the \<open>(2k+2)\<close>-th
  is "Package B function called" (list indices count from 0). From
  \<^verbatim>\<open>package_b_function\<close> the same holds with the two messages exchanged.
\<close>

theorem output_alternates:
  assumes "P \<in> {program_a, program_b}"
  shows "(\<exists>c. steps P n (entry ''package_a_function'' inp mem) = Inr c \<and>
            length (lines_of (stdout c)) = (n + 1) div 2 \<and>
            (2 * k < length (lines_of (stdout c)) \<longrightarrow>
               lines_of (stdout c) ! (2 * k) = ''Package A function called'') \<and>
            (2 * k + 1 < length (lines_of (stdout c)) \<longrightarrow>
               lines_of (stdout c) ! (2 * k + 1) = ''Package B function called'')) \<and>
         (\<exists>c. steps P n (entry ''package_b_function'' inp mem) = Inr c \<and>
            length (lines_of (stdout c)) = (n + 1) div 2 \<and>
            (2 * k < length (lines_of (stdout c)) \<longrightarrow>
               lines_of (stdout c) ! (2 * k) = ''Package B function called'') \<and>
            (2 * k + 1 < length (lines_of (stdout c)) \<longrightarrow>
               lines_of (stdout c) ! (2 * k + 1) = ''Package A function called''))"
proof -
  from assms have linked: "both_linked P"
    by (auto simp: both_linked_programs)
  have *: "\<exists>c. steps P n (entry (function_of p) inp mem) = Inr c \<and>
      length (lines_of (stdout c)) = (n + 1) div 2 \<and>
      (2 * k < length (lines_of (stdout c)) \<longrightarrow>
         lines_of (stdout c) ! (2 * k) = line_of p) \<and>
      (2 * k + 1 < length (lines_of (stdout c)) \<longrightarrow>
         lines_of (stdout c) ! (2 * k + 1) = line_of (other p))" for p
  proof -
    from call_lines [OF linked, of n p inp mem] obtain c
      where c: "steps P n (entry (function_of p) inp mem) = Inr c"
        "lines_of (stdout c) = alternating p ((n + 1) div 2)" by blast
    have "length (lines_of (stdout c)) = (n + 1) div 2"
      by (simp add: c(2) length_alternating)
    moreover have "lines_of (stdout c) ! (2 * k) = line_of p"
      if "2 * k < length (lines_of (stdout c))"
      using that nth_alternating [of "2 * k" "(n + 1) div 2" p]
      by (simp add: c(2) length_alternating)
    moreover have "lines_of (stdout c) ! (2 * k + 1) = line_of (other p)"
      if "2 * k + 1 < length (lines_of (stdout c))"
      using that nth_alternating [of "2 * k + 1" "(n + 1) div 2" p]
      by (simp add: c(2) length_alternating)
    ultimately show ?thesis using c(1) by blast
  qed
  from * [of A] * [of B] show ?thesis by simp
qed

theorem output_alternates_witness:
  "(\<exists>c. steps program_a 8 (entry ''package_a_function'' [] Map.empty) = Inr c \<and>
        length (lines_of (stdout c)) = 4 \<and>
        lines_of (stdout c) ! 2 = ''Package A function called'' \<and>
        lines_of (stdout c) ! 3 = ''Package B function called'') \<and>
   (\<exists>c. steps program_a 8 (entry ''package_b_function'' [] Map.empty) = Inr c \<and>
        length (lines_of (stdout c)) = 4 \<and>
        lines_of (stdout c) ! 2 = ''Package B function called'' \<and>
        lines_of (stdout c) ! 3 = ''Package A function called'')"
proof -
  have P: "program_a \<in> {program_a, program_b}" by simp
  from output_alternates [OF P, of 8 "[]" Map.empty 1]
  show ?thesis by (auto simp: numeral_3_eq_3)
qed

text \<open>
  Claim C9. The output of a run depends on the entry point only: two runs of the same
  program, with whatever standard input and memory, have written the same bytes after
  the same number of steps, and the shorter of two runs has written a prefix of what
  the longer one has.
\<close>

theorem output_deterministic:
  assumes "P \<in> {program_a, program_b}"
    and "steps P n (initial inp1 mem1) = Inr c1"
    and "steps P m (initial inp2 mem2) = Inr c2"
  shows "(n = m \<longrightarrow> stdout c1 = stdout c2) \<and>
         (n \<le> m \<longrightarrow> (\<exists>rest. stdout c2 = stdout c1 @ rest))"
proof -
  from programs_cases [OF assms(1)] obtain p where P: "P = program_of p" by blast
  from main_live [of p n inp1 mem1] assms(2)
  have c1: "stdout c1 = chant p (n div 2)" unfolding P by auto
  from main_live [of p m inp2 mem2] assms(3)
  have c2: "stdout c2 = chant p (m div 2)" unfolding P by auto
  have "\<exists>rest. stdout c2 = stdout c1 @ rest" if "n \<le> m"
  proof -
    from that have "n div 2 \<le> m div 2" by (rule div_le_mono)
    from chant_prefix [OF this, of p] show ?thesis by (simp add: c1 c2)
  qed
  then show ?thesis by (simp add: c1 c2)
qed

theorem output_deterministic_witness:
  "steps program_b 2 (initial ''x'' Map.empty) =
     Inr \<lparr>stack = [(''package_b_function'', 1), (''main'', 1)],
          stdout = ''Package B function called\<newline>'',
          stdin = ''x'', memory = Map.empty, exit_status = None\<rparr> \<and>
   steps program_b 2 (initial ''yz'' [1 \<mapsto> 2]) =
     Inr \<lparr>stack = [(''package_b_function'', 1), (''main'', 1)],
          stdout = ''Package B function called\<newline>'',
          stdin = ''yz'', memory = [1 \<mapsto> 2], exit_status = None\<rparr> \<and>
   stdout \<lparr>stack = [(''package_b_function'', 1), (''main'', 1)],
          stdout = ''Package B function called\<newline>'',
          stdin = ''x'', memory = Map.empty, exit_status = None\<rparr> =
   stdout \<lparr>stack = [(''package_b_function'', 1), (''main'', 1)],
          stdout = ''Package B function called\<newline>'',
          stdin = ''yz'', memory = [1 \<mapsto> 2], exit_status = None\<rparr>"
proof -
  have P: "program_b \<in> {program_a, program_b}" by simp
  have r1: "steps program_b 2 (initial ''x'' Map.empty) =
     Inr \<lparr>stack = [(''package_b_function'', 1), (''main'', 1)],
          stdout = ''Package B function called\<newline>'',
          stdin = ''x'', memory = Map.empty, exit_status = None\<rparr>"
    by (simp add: numeral_2_eq_2 step_def initial_def entry_def program_b_lookup
        package_b_main_def package_b_function_def)
  have r2: "steps program_b 2 (initial ''yz'' [1 \<mapsto> 2]) =
     Inr \<lparr>stack = [(''package_b_function'', 1), (''main'', 1)],
          stdout = ''Package B function called\<newline>'',
          stdin = ''yz'', memory = [1 \<mapsto> 2], exit_status = None\<rparr>"
    by (simp add: numeral_2_eq_2 step_def initial_def entry_def program_b_lookup
        package_b_main_def package_b_function_def)
  from output_deterministic [OF P r1 r2] r1 r2 show ?thesis by simp
qed

subsection \<open>Order of the statements\<close>

text \<open>
  Claim C3. A call of \<^verbatim>\<open>package_a_function\<close> (its frame on top of the stack, at its first
  statement) first appends "Package A function called" and a newline to standard output,
  and only then, in the next step, calls \<^verbatim>\<open>package_b_function\<close>, leaving its own frame
  waiting after the call. \<^verbatim>\<open>package_b_function\<close> does the same with its own message and a
  call of \<^verbatim>\<open>package_a_function\<close>.
\<close>

theorem print_then_call:
  assumes "P \<in> {program_a, program_b}"
  shows "(stack c = (''package_a_function'', 0) # callers \<longrightarrow>
           step P c =
             Inr (c\<lparr>stack := (''package_a_function'', 1) # callers,
                    stdout := stdout c @ ''Package A function called\<newline>''\<rparr>) \<and>
           step P (c\<lparr>stack := (''package_a_function'', 1) # callers,
                     stdout := stdout c @ ''Package A function called\<newline>''\<rparr>) =
             Inr (c\<lparr>stack := (''package_b_function'', 0) # (''package_a_function'', 2) # callers,
                    stdout := stdout c @ ''Package A function called\<newline>''\<rparr>)) \<and>
         (stack c = (''package_b_function'', 0) # callers \<longrightarrow>
           step P c =
             Inr (c\<lparr>stack := (''package_b_function'', 1) # callers,
                    stdout := stdout c @ ''Package B function called\<newline>''\<rparr>) \<and>
           step P (c\<lparr>stack := (''package_b_function'', 1) # callers,
                     stdout := stdout c @ ''Package B function called\<newline>''\<rparr>) =
             Inr (c\<lparr>stack := (''package_a_function'', 0) # (''package_b_function'', 2) # callers,
                    stdout := stdout c @ ''Package B function called\<newline>''\<rparr>))"
proof -
  from assms have linked: "both_linked P"
    by (auto simp: both_linked_programs)
  have *: "step P c =
        Inr (c\<lparr>stack := (function_of p, 1) # callers,
               stdout := stdout c @ line_of p @ [CHR 0x0A]\<rparr>) \<and>
      step P (c\<lparr>stack := (function_of p, 1) # callers,
                stdout := stdout c @ line_of p @ [CHR 0x0A]\<rparr>) =
        Inr (c\<lparr>stack := (function_of (other p), 0) # (function_of p, 2) # callers,
               stdout := stdout c @ line_of p @ [CHR 0x0A]\<rparr>)"
    if "stack c = (function_of p, 0) # callers" for p
    using step_print [OF linked that]
      step_call [OF linked, of "c\<lparr>stack := (function_of p, 1) # callers,
                stdout := stdout c @ line_of p @ [CHR 0x0A]\<rparr>" p callers]
    by simp
  from * [of A] * [of B] show ?thesis by simp
qed

theorem print_then_call_witness:
  "step program_a (entry ''package_a_function'' [] Map.empty) =
     Inr \<lparr>stack = [(''package_a_function'', 1)],
          stdout = ''Package A function called\<newline>'',
          stdin = [], memory = Map.empty, exit_status = None\<rparr> \<and>
   step program_a \<lparr>stack = [(''package_a_function'', 1)],
          stdout = ''Package A function called\<newline>'',
          stdin = [], memory = Map.empty, exit_status = None\<rparr> =
     Inr \<lparr>stack = [(''package_b_function'', 0), (''package_a_function'', 2)],
          stdout = ''Package A function called\<newline>'',
          stdin = [], memory = Map.empty, exit_status = None\<rparr>"
  using print_then_call [of program_a "entry ''package_a_function'' [] Map.empty" "[]"]
  by (simp add: entry_def)

text \<open>
  Claim C4. The first step of each program is the call of the function of its own file:
  \<^verbatim>\<open>main\<close> of \<^verbatim>\<open>package-a.c\<close> calls \<^verbatim>\<open>package_a_function\<close>, \<^verbatim>\<open>main\<close> of
  \<^verbatim>\<open>package-b.c\<close> calls \<^verbatim>\<open>package_b_function\<close>, and nothing but the stack has changed
  when the callee starts.
\<close>

theorem main_calls_own_function:
  "step program_a (initial inp mem) =
     Inr ((initial inp mem)\<lparr>stack := [(''package_a_function'', 0), (''main'', 1)]\<rparr>) \<and>
   step program_b (initial inp mem) =
     Inr ((initial inp mem)\<lparr>stack := [(''package_b_function'', 0), (''main'', 1)]\<rparr>)"
  using step_main [of "initial inp mem" "[]" A] step_main [of "initial inp mem" "[]" B]
  by (simp add: initial_def entry_def)

theorem main_calls_own_function_witness:
  "step program_a (initial ''q'' Map.empty) =
     Inr \<lparr>stack = [(''package_a_function'', 0), (''main'', 1)], stdout = [],
          stdin = ''q'', memory = Map.empty, exit_status = None\<rparr> \<and>
   step program_b (initial ''q'' Map.empty) =
     Inr \<lparr>stack = [(''package_b_function'', 0), (''main'', 1)], stdout = [],
          stdin = ''q'', memory = Map.empty, exit_status = None\<rparr>"
  using main_calls_own_function [of "''q''" Map.empty]
  by (simp add: initial_def entry_def)

text \<open>
  Claim C10. In both programs, once the call made by \<^verbatim>\<open>main\<close> has returned (the frame of
  \<^verbatim>\<open>main\<close> alone on the stack, at the statement after the call), the next step returns
  from \<^verbatim>\<open>main\<close> with exit status 0 and the run ends there.
\<close>

theorem main_returns_zero:
  assumes "P \<in> {program_a, program_b}"
    and "stack c = [(''main'', 1)]"
  shows "step P c = Inr (c\<lparr>stack := [], exit_status := Some 0\<rparr>) \<and>
         run P c = Some (Inr (c\<lparr>stack := [], exit_status := Some 0\<rparr>))"
proof -
  from programs_cases [OF assms(1)] obtain p where P: "P = program_of p" by blast
  from assms(2) have st: "step P c = Inr (c\<lparr>stack := [], exit_status := Some 0\<rparr>)"
    unfolding P by (simp add: step_main_return)
  have "run P c = run P (c\<lparr>stack := [], exit_status := Some 0\<rparr>)"
    using assms(2) st by (subst run.simps) simp
  also have "\<dots> = Some (Inr (c\<lparr>stack := [], exit_status := Some 0\<rparr>))"
    by (subst run.simps) simp
  finally show ?thesis using st by simp
qed

theorem main_returns_zero_witness:
  "step program_a \<lparr>stack = [(''main'', 1)], stdout = ''Package A function called\<newline>'',
                   stdin = [], memory = Map.empty, exit_status = None\<rparr> =
     Inr \<lparr>stack = [], stdout = ''Package A function called\<newline>'',
          stdin = [], memory = Map.empty, exit_status = Some 0\<rparr> \<and>
   run program_a \<lparr>stack = [(''main'', 1)], stdout = ''Package A function called\<newline>'',
                  stdin = [], memory = Map.empty, exit_status = None\<rparr> =
     Some (Inr \<lparr>stack = [], stdout = ''Package A function called\<newline>'',
          stdin = [], memory = Map.empty, exit_status = Some 0\<rparr>)"
  using main_returns_zero [of program_a
      "\<lparr>stack = [(''main'', 1)], stdout = ''Package A function called\<newline>'',
        stdin = [], memory = Map.empty, exit_status = None\<rparr>"]
  by simp

subsection \<open>Effects, errors and data\<close>

text \<open>
  Claim C5. A call of \<^verbatim>\<open>package_a_function\<close> or \<^verbatim>\<open>package_b_function\<close>, run for any
  number of steps, changes only the stack above its callers and standard output, to
  which it appends a whole number of the two fixed lines; standard input, memory and
  the exit status are as before the call.
\<close>

theorem call_only_writes_stdout:
  assumes "P \<in> {program_a, program_b}"
    and "stack c = (function_of p, 0) # callers"
  shows "\<exists>c' k fr. steps P n c = Inr c' \<and>
           c' = c\<lparr>stack := fr @ callers, stdout := stdout c @ chant p k\<rparr> \<and>
           stdin c' = stdin c \<and> memory c' = memory c \<and> exit_status c' = exit_status c"
proof -
  from assms(1) have linked: "both_linked P"
    by (auto simp: both_linked_programs)
  let ?c' = "c\<lparr>stack := active p n @ callers, stdout := stdout c @ chant p ((n + 1) div 2)\<rparr>"
  have "steps P n c = Inr ?c'"
    by (rule call_run [OF linked assms(2)])
  moreover have "stdin ?c' = stdin c \<and> memory ?c' = memory c \<and> exit_status ?c' = exit_status c"
    by simp
  ultimately show ?thesis by blast
qed

theorem call_only_writes_stdout_witness:
  "\<exists>c' k fr. steps program_a 3 (entry ''package_b_function'' ''in'' [0 \<mapsto> 7]) = Inr c' \<and>
      c' = (entry ''package_b_function'' ''in'' [0 \<mapsto> 7])
             \<lparr>stack := fr @ [], stdout := [] @ chant B k\<rparr> \<and>
      stdin c' = ''in'' \<and> memory c' = [0 \<mapsto> 7] \<and> exit_status c' = None"
  using call_only_writes_stdout
    [of program_a "entry ''package_b_function'' ''in'' [0 \<mapsto> 7]" B "[]" 3]
  by (simp add: entry_def)

text \<open>
  Claim C6. No step of either program yields an error value: from any configuration
  whose frames belong to \<^verbatim>\<open>main\<close>, \<^verbatim>\<open>package_a_function\<close> or
  \<^verbatim>\<open>package_b_function\<close>, at whatever statement, every number of steps ends in a
  configuration.
\<close>

theorem no_error_value:
  assumes "P \<in> {program_a, program_b}"
    and "fst ` set (stack c) \<subseteq> {''main'', ''package_a_function'', ''package_b_function''}"
  shows "steps P n c \<noteq> Inl e"
  using steps_defined [OF assms, of n] by auto

theorem no_error_value_witness:
  "steps program_a 9 (initial [] Map.empty) \<noteq> Inl (Unresolved_symbol ''package_b_function'')"
  using no_error_value [of program_a "initial [] Map.empty" 9]
  by (simp add: initial_def entry_def)

text \<open>
  The error value is not idle in the model: a translation unit run on its own, without
  the other file, stops at its call of the function it only declares.
\<close>

lemma unlinked_unit_fails:
  "steps package_a_c 3 (initial [] Map.empty) = Inl (Unresolved_symbol ''package_b_function'')"
  by (simp add: numeral_eq_Suc step_def initial_def entry_def package_a_c_def
      package_a_main_def package_a_function_def)

text \<open>
  Claim C7. The programs hold no data: after any number of steps from the start of
  either program the configuration differs from the initial one in the call stack and
  in standard output only; memory and standard input are those of the start.
\<close>

theorem no_data_state:
  assumes "P \<in> {program_a, program_b}"
  shows "\<exists>c. steps P n (initial inp mem) = Inr c \<and>
           c = (initial inp mem)\<lparr>stack := stack c, stdout := stdout c\<rparr> \<and>
           memory c = mem \<and> stdin c = inp"
proof -
  from programs_cases [OF assms] obtain p where P: "P = program_of p" by blast
  from main_run_all [of p n inp mem] obtain fr
    where "steps P n (initial inp mem) =
      Inr ((initial inp mem)\<lparr>stack := fr, stdout := chant p (n div 2)\<rparr>)"
    unfolding P by blast
  then show ?thesis by (simp add: initial_def entry_def)
qed

theorem no_data_state_witness:
  "\<exists>c. steps program_b 6 (initial ''abc'' [3 \<mapsto> 1]) = Inr c \<and>
       c = (initial ''abc'' [3 \<mapsto> 1])\<lparr>stack := stack c, stdout := stdout c\<rparr> \<and>
       memory c = [3 \<mapsto> 1] \<and> stdin c = ''abc''"
  using no_data_state [of program_b 6 "''abc''" "[3 \<mapsto> 1]"] by simp

end
